theory Spec2Isabelle
  imports Complex_Main "HOL-Library.Product_Lexorder"
begin

section \<open>Data model (lib/astro.ts)\<close>

text \<open>
  JavaScript numbers are modelled as exact reals (no rounding, no \<open>NaN\<close>, also
  where a buffer attribute stores 32-bit floats), instants (\<open>Date\<close>, epoch
  milliseconds) as integers. \<open>TrajPoint.illum\<close> is an optional field.
\<close>

record TrajPoint =
  t :: int
  azN :: real
  alt :: real
  illum :: "real option"

text \<open>A \<open>THREE.Vector3\<close> is the triple \<open>(x, y, z)\<close>.\<close>

type_synonym Vector3 = "real \<times> real \<times> real"

section \<open>Coordinate projector (three/buildObjects.ts, toXYZ)\<close>

definition toXYZ :: "TrajPoint \<Rightarrow> real \<Rightarrow> Vector3" where
  "toXYZ p R =
     (let az = azN p;
          al = alt p;
          r = R * cos al;
          x = r * sin az;
          z = r * cos az;
          y = R * sin al
      in (x, y, z))"

section \<open>Point set builder (three/buildObjects.ts, buildPoints)\<close>

text \<open>
  The returned \<open>THREE.Points\<close> object is modelled by the data the function
  computes: the flat \<open>position\<close> attribute (three numbers per point), the
  \<open>size\<close> attribute, the \<open>userData.indexMap\<close> side channel and the colour uniform.
\<close>

record PointsObj =
  verts :: "real list"
  sizes :: "real list"
  indexMap :: "nat list"
  uColor :: string

text \<open>One iteration of the \<open>for (let i = 0; i < points.length; i++)\<close> loop.\<close>

definition buildPoints_step ::
  "TrajPoint list \<Rightarrow> real \<Rightarrow> real \<Rightarrow> bool \<Rightarrow> PointsObj \<Rightarrow> nat \<Rightarrow> PointsObj" where
  "buildPoints_step points R size' showBelowHorizon acc i =
     (let p = points ! i in
      if \<not> showBelowHorizon \<and> alt p < 0 then acc
      else
        (case toXYZ p R of (vx, vy, vz) \<Rightarrow>
           let k = (case illum p of None \<Rightarrow> 1 | Some v \<Rightarrow> v) in
           acc\<lparr>verts := verts acc @ [vx, vy, vz],
               indexMap := indexMap acc @ [i],
               sizes := sizes acc @ [size' * (0.6 + 0.8 * k)]\<rparr>))"

text \<open>The parameter \<open>size\<close> has the default \<open>0.06\<close> when it is not passed.\<close>

definition buildPoints ::
  "TrajPoint list \<Rightarrow> real \<Rightarrow> string \<Rightarrow> real option \<Rightarrow> bool \<Rightarrow> PointsObj" where
  "buildPoints points R color size' showBelowHorizon =
     (let sz = (case size' of None \<Rightarrow> 0.06 | Some s \<Rightarrow> s) in
      foldl (buildPoints_step points R sz showBelowHorizon)
        \<lparr>verts = [], sizes = [], indexMap = [], uColor = color\<rparr>
        [0..<length points])"

text \<open>Point \<open>i\<close> of a flat \<open>position\<close> attribute with item size 3.\<close>

definition pointAt :: "real list \<Rightarrow> nat \<Rightarrow> Vector3" where
  "pointAt vs i = (vs ! (3 * i), vs ! (3 * i + 1), vs ! (3 * i + 2))"

definition pointCount :: "real list \<Rightarrow> nat" where
  "pointCount vs = length vs div 3"

section \<open>Horizon-segmenting curve builder (buildTrajectoryLinesSplitByHorizon)\<close>

text \<open>
  A \<open>THREE.Line\<close> is modelled by its flat \<open>position\<close> attribute and the colour of
  its material. The loop state is the pair \<open>(lines, current)\<close>.
\<close>

record Line =
  position :: "real list"
  lineColor :: string

text \<open>\<open>const visible = showBelowHorizon || p.alt >= 0\<close>\<close>

definition visible :: "bool \<Rightarrow> TrajPoint \<Rightarrow> bool" where
  "visible showBelowHorizon p = (showBelowHorizon \<or> alt p \<ge> 0)"

definition pushCurrent :: "string \<Rightarrow> Line list \<times> real list \<Rightarrow> Line list \<times> real list" where
  "pushCurrent color st =
     (case st of (lines, current) \<Rightarrow>
        (if length current \<ge> 6
         then lines @ [\<lparr>position = current, lineColor = color\<rparr>]
         else lines,
         []))"

definition lines_step ::
  "real \<Rightarrow> string \<Rightarrow> bool \<Rightarrow> Line list \<times> real list \<Rightarrow> TrajPoint
     \<Rightarrow> Line list \<times> real list" where
  "lines_step R color showBelowHorizon st p =
     (if \<not> visible showBelowHorizon p then pushCurrent color st
      else
        (case toXYZ p R of (vx, vy, vz) \<Rightarrow>
           (case st of (lines, current) \<Rightarrow> (lines, current @ [vx, vy, vz]))))"

definition buildTrajectoryLinesSplitByHorizon ::
  "TrajPoint list \<Rightarrow> real \<Rightarrow> string \<Rightarrow> bool \<Rightarrow> Line list" where
  "buildTrajectoryLinesSplitByHorizon points R color showBelowHorizon =
     fst (pushCurrent color
            (foldl (lines_step R color showBelowHorizon) ([], []) points))"

section \<open>Azimuth conversion (lib/astro.ts, toAzFromNorth)\<close>

text \<open>
  The JavaScript remainder \<open>a % n\<close> truncates the quotient towards zero, so the
  result has the sign of the dividend.
\<close>

definition js_rem :: "real \<Rightarrow> real \<Rightarrow> real" where
  "js_rem a n = a - n * of_int (if 0 \<le> a / n then \<lfloor>a / n\<rfloor> else \<lceil>a / n\<rceil>)"

definition toAzFromNorth :: "real \<Rightarrow> real" where
  "toAzFromNorth suncalcAzSouth0WestPlus =
     (let twoPi = pi * 2;
          azN = js_rem (suncalcAzSouth0WestPlus + pi) twoPi
      in if azN < 0 then azN + twoPi else azN)"

text \<open>
  The mathematical reduction modulo \<open>2\<pi>\<close> into \<open>[0, 2\<pi>)\<close> that the specification
  refers to, for comparison with the code above.
\<close>

definition mod2pi :: "real \<Rightarrow> real" where
  "mod2pi a = a - 2 * pi * of_int \<lfloor>a / (2 * pi)\<rfloor>"

section \<open>Trajectory sampler (lib/astro.ts, buildSunTrajectory)\<close>

text \<open>
  The libraries the sampler calls are parameters of the model:
  \<^item> \<open>tzLookup lat lon\<close> is the IANA zone of the coordinates, \<open>None\<close> when
    tz-lookup throws;
  \<^item> \<open>startOfDay tz dateISO\<close> is the instant (epoch milliseconds) of
    \<open>DateTime.fromISO(dateISO, {zone: tz}).startOf("day")\<close>, \<open>None\<close> for an invalid
    \<open>DateTime\<close>;
  \<^item> \<open>plusOneDay tz dt\<close> is the instant of \<open>dt.plus({days: 1})\<close> in that zone;
  \<^item> \<open>getPosition\<close> is \<open>SunCalc.getPosition\<close>.
  \<open>dt.plus({minutes: stepMin})\<close> adds exactly \<open>stepMin * 60000\<close> milliseconds.
  An invalid \<open>DateTime\<close> compares false with everything, so the loop is not
  entered. The \<open>console.log\<close> calls of the loop are left out.
\<close>

record SunPosition =
  azimuth :: real
  altitude :: real

record AstroEnv =
  tzLookup :: "real \<Rightarrow> real \<Rightarrow> string option"
  startOfDay :: "string \<Rightarrow> string \<Rightarrow> int option"
  plusOneDay :: "string \<Rightarrow> int \<Rightarrow> int"
  getPosition :: "int \<Rightarrow> real \<Rightarrow> real \<Rightarrow> SunPosition"

datatype astro_error = TzLookupError

definition sunPoint :: "AstroEnv \<Rightarrow> real \<Rightarrow> real \<Rightarrow> int \<Rightarrow> TrajPoint" where
  "sunPoint env lat lon dt =
     (let pos = getPosition env dt lat lon
      in \<lparr>t = dt, azN = toAzFromNorth (azimuth pos), alt = altitude pos, illum = None\<rparr>)"

text \<open>
  The loop \<open>for (let dt = start; dt < end; dt = dt.plus({minutes: stepMin}))\<close>.
  It does not return when \<open>stepMin \<le> 0\<close> and \<open>start < end\<close>; the result
  \<open>None\<close> stands for that.
\<close>

partial_function (option) sun_loop ::
  "AstroEnv \<Rightarrow> real \<Rightarrow> real \<Rightarrow> int \<Rightarrow> int \<Rightarrow> int \<Rightarrow> TrajPoint list \<Rightarrow> TrajPoint list option" where
  "sun_loop env lat lon stepMin endT dt pts =
     (if dt < endT
      then sun_loop env lat lon stepMin endT (dt + stepMin * 60000)
             (pts @ [sunPoint env lat lon dt])
      else Some pts)"

definition buildSunTrajectory ::
  "AstroEnv \<Rightarrow> real \<Rightarrow> real \<Rightarrow> string \<Rightarrow> int \<Rightarrow> (astro_error + TrajPoint list) option" where
  "buildSunTrajectory env lat lon dateISO stepMin =
     (case tzLookup env lat lon of
        None \<Rightarrow> Some (Inl TzLookupError)
      | Some tz \<Rightarrow>
          (case startOfDay env tz dateISO of
             None \<Rightarrow> Some (Inr [])
           | Some start \<Rightarrow>
               map_option Inr
                 (sun_loop env lat lon stepMin (plusOneDay env tz start) start [])))"

section \<open>Geocoding search (lib/geo.ts, searchCity)\<close>














section \<open>Moon-phase raster (three/Scene3D.tsx, updateMoonAge)\<close>

record MoonIllumination =
  fraction :: real
  phase :: real
  angle :: real

text \<open>Storing a number into a \<open>Uint8ClampedArray\<close>: clamp, round half to even.\<close>

definition toUint8Clamp :: "real \<Rightarrow> nat" where
  "toUint8Clamp v =
     (if v \<le> 0 then 0
      else if 255 \<le> v then 255
      else
        (let f = \<lfloor>v\<rfloor> in
         if of_int f + 1 / 2 < v then nat (f + 1)
         else if v < of_int f + 1 / 2 then nat f
         else if even f then nat f else nat (f + 1)))"

record RGB =
  red :: real
  green :: real
  blue :: real

text \<open>
  The body of the two nested loops for the pixel \<open>(x, y)\<close>: the four bytes
  written at \<open>idx = (y * size + x) * 4\<close> of the fresh (all zero) image data.
\<close>

definition moonPixel :: "real \<Rightarrow> real \<Rightarrow> RGB \<Rightarrow> RGB \<Rightarrow> real \<Rightarrow> real \<Rightarrow> real \<Rightarrow> nat \<Rightarrow> nat \<Rightarrow> nat list" where
  "moonPixel lx lz litRGB darkRGB cx cy r x' y' =
     (let dx = real x' + 0.5 - cx;
          dy = real y' + 0.5 - cy;
          rr = dx * dx + dy * dy
      in
      if rr > r * r then [0, 0, 0, 0]
      else
        (let nx = dx / r;
             ny = dy / r;
             nz = sqrt (max 0 (1 - nx * nx - ny * ny));
             ambient = 0.02;
             gamma = 0.95;
             limbDark = 0.10;
             edgeSoftness = 0.035;
             edgeBoost = 0.85;
             ndotl = nx * lx + nz * lz;
             t0 = - edgeSoftness;
             t1 = edgeSoftness;
             lit0 = (ndotl - t0) / (t1 - t0);
             lit1 = min 1 (max 0 lit0);
             lit = lit1 powr edgeBoost;
             rim = 1 - nz;
             rimFactor = 1 - limbDark * rim;
             I0 = ambient + (1 - ambient) * lit;
             I = (min 1 (max 0 (I0 * rimFactor))) powr gamma
         in [toUint8Clamp (red darkRGB + (red litRGB - red darkRGB) * I),
             toUint8Clamp (green darkRGB + (green litRGB - green darkRGB) * I),
             toUint8Clamp (blue darkRGB + (blue litRGB - blue darkRGB) * I),
             255]))"

text \<open>
  The shading block: \<open>img.data\<close> after the loops, for the \<open>64 \<times> 64\<close> canvas
  (\<open>centerX = centerY = 32\<close>, \<open>radius = 64 * 0.45\<close>).
\<close>

definition moonPhaseImage :: "MoonIllumination \<Rightarrow> bool \<Rightarrow> nat list" where
  "moonPhaseImage ill dark =
     (let size' = 64;
          cx = real size' / 2;
          cy = real size' / 2;
          r = real size' * 0.45;
          litRGB = \<lparr>red = 225, green = 222, blue = 210\<rparr>;
          darkRGB = (if dark then \<lparr>red = 20, green = 26, blue = 42\<rparr>
                     else \<lparr>red = 220, green = 226, blue = 242\<rparr>);
          ph = phase ill;
          alpha = 2 * pi * ph;
          lx = sin alpha;
          lz = - cos alpha
      in concat (map (\<lambda>y'. concat (map (\<lambda>x'. moonPixel lx lz litRGB darkRGB cx cy r x' y')
                                      [0..<size']))
                     [0..<size']))"

text \<open>
  \<open>updateMoonAge\<close>: nothing is drawn when \<open>props.dateISO\<close> is empty or the canvas
  has no 2D context; otherwise the badge shows the moon age and the raster.
  \<open>getMoonIllumination\<close> is \<open>SunCalc.getMoonIllumination\<close> on the \<open>Date\<close> parsed
  from the given ISO string.
\<close>

record MoonBadge =
  moonAge :: real
  imageData :: "nat list"

definition updateMoonAge ::
  "(string \<Rightarrow> MoonIllumination) \<Rightarrow> string \<Rightarrow> bool \<Rightarrow> bool \<Rightarrow> MoonBadge option" where
  "updateMoonAge getMoonIllumination dateISO dark hasCtx =
     (if dateISO = [] then None
      else if \<not> hasCtx then None
      else
        (let ill = getMoonIllumination (dateISO @ ''T12:00:00Z'')
         in Some \<lparr>moonAge = phase ill * 29.530588853,
                  imageData = moonPhaseImage ill dark\<rparr>))"

section \<open>Notions used to state the properties\<close>

text \<open>The three numbers a projected point contributes to a flat position array.\<close>

definition vec3 :: "Vector3 \<Rightarrow> real list" where
  "vec3 v = (case v of (a, b, c) \<Rightarrow> [a, b, c])"

definition flat :: "real \<Rightarrow> TrajPoint list \<Rightarrow> real list" where
  "flat R ps = concat (map (\<lambda>p. vec3 (toXYZ p R)) ps)"

text \<open>Sample \<open>i\<close> is not skipped by \<open>buildPoints\<close>.\<close>

definition kept :: "TrajPoint list \<Rightarrow> bool \<Rightarrow> nat \<Rightarrow> bool" where
  "kept points showBelowHorizon i = (showBelowHorizon \<or> \<not> alt (points ! i) < 0)"

definition illumOrOne :: "TrajPoint \<Rightarrow> real" where
  "illumOrOne p = (case illum p of None \<Rightarrow> 1 | Some v \<Rightarrow> v)"

definition sizeOrDefault :: "real option \<Rightarrow> real" where
  "sizeOrDefault s = (case s of None \<Rightarrow> 0.06 | Some v \<Rightarrow> v)"

text \<open>
  The specification's maximal runs of consecutive visible samples, over the list
  of visibility flags: \<open>[i, j)\<close> is a run when all its samples are visible and it
  cannot be extended on either side. \<open>maximal_runs\<close> lists them in input order.
\<close>

definition is_maximal_run :: "bool list \<Rightarrow> nat \<Rightarrow> nat \<Rightarrow> bool" where
  "is_maximal_run vs i j =
     (i < j \<and> j \<le> length vs \<and> (\<forall>k\<in>{i..<j}. vs ! k) \<and>
      (i = 0 \<or> \<not> vs ! (i - 1)) \<and> (j = length vs \<or> \<not> vs ! j))"

definition maximal_runs :: "bool list \<Rightarrow> (nat \<times> nat) list" where
  "maximal_runs vs =
     filter (\<lambda>(i, j). is_maximal_run vs i j)
       (List.product [0..<length vs] [0..<Suc (length vs)])"

text \<open>The polyline of the samples \<open>i, \<dots>, j - 1\<close>.\<close>

definition segment :: "TrajPoint list \<Rightarrow> real \<Rightarrow> nat \<times> nat \<Rightarrow> real list" where
  "segment points R ij = flat R (take (snd ij - fst ij) (drop (fst ij) points))"

definition mkLine :: "string \<Rightarrow> real list \<Rightarrow> Line" where
  "mkLine c vs = \<lparr>position = vs, lineColor = c\<rparr>"

text \<open>
  The runs as the loop finds them: \<open>s\<close> is the index where the current run began,
  \<open>k\<close> the index of the next flag.
\<close>

fun runs_from :: "bool list \<Rightarrow> nat \<Rightarrow> nat \<Rightarrow> (nat \<times> nat) list" where
  "runs_from [] s k = (if s < k then [(s, k)] else [])"
| "runs_from (v # vs) s k =
     (if v then runs_from vs s (Suc k)
      else (if s < k then [(s, k)] else []) @ runs_from vs (Suc k) (Suc k))"

text \<open>A position lies on the sphere of radius \<open>R\<close> around the origin.\<close>

definition onSphere :: "real \<Rightarrow> Vector3 \<Rightarrow> bool" where
  "onSphere R v = (case v of (a, b, c) \<Rightarrow> a\<^sup>2 + b\<^sup>2 + c\<^sup>2 = R\<^sup>2)"

text \<open>The instants of the sampler's grid: \<open>n\<close> steps of \<open>stepMin\<close> minutes from \<open>start\<close>.\<close>

definition sampleInstants :: "int \<Rightarrow> int \<Rightarrow> nat \<Rightarrow> int list" where
  "sampleInstants start stepMin n = map (\<lambda>k. start + int k * (stepMin * 60000)) [0..<n]"




section \<open>The point set builder in closed form\<close>

lemma buildPoints_loop:
  "foldl (buildPoints_step points R sz b)
     \<lparr>verts = [], sizes = [], indexMap = [], uColor = c\<rparr> [0..<n] =
   \<lparr>verts = concat (map (\<lambda>i. vec3 (toXYZ (points ! i) R)) (filter (kept points b) [0..<n])),
    sizes = map (\<lambda>i. sz * (0.6 + 0.8 * illumOrOne (points ! i))) (filter (kept points b) [0..<n]),
    indexMap = filter (kept points b) [0..<n],
    uColor = c\<rparr>"
proof (induction n)
  case 0
  show ?case by simp
next
  case (Suc n)
  have "foldl (buildPoints_step points R sz b)
          \<lparr>verts = [], sizes = [], indexMap = [], uColor = c\<rparr> [0..<Suc n] =
        buildPoints_step points R sz b
          (foldl (buildPoints_step points R sz b)
             \<lparr>verts = [], sizes = [], indexMap = [], uColor = c\<rparr> [0..<n]) n"
    by simp
  also have "\<dots> = buildPoints_step points R sz b
     \<lparr>verts = concat (map (\<lambda>i. vec3 (toXYZ (points ! i) R)) (filter (kept points b) [0..<n])),
      sizes = map (\<lambda>i. sz * (0.6 + 0.8 * illumOrOne (points ! i))) (filter (kept points b) [0..<n]),
      indexMap = filter (kept points b) [0..<n],
      uColor = c\<rparr> n"
    by (simp only: Suc)
  also have "\<dots> =
     \<lparr>verts = concat (map (\<lambda>i. vec3 (toXYZ (points ! i) R)) (filter (kept points b) [0..<Suc n])),
      sizes = map (\<lambda>i. sz * (0.6 + 0.8 * illumOrOne (points ! i))) (filter (kept points b) [0..<Suc n]),
      indexMap = filter (kept points b) [0..<Suc n],
      uColor = c\<rparr>"
    by (simp add: buildPoints_step_def kept_def vec3_def illumOrOne_def Let_def
        split: prod.split)
  finally show ?case .
qed

lemma buildPoints_verts:
  "verts (buildPoints points R c sz b) =
     concat (map (\<lambda>i. vec3 (toXYZ (points ! i) R)) (filter (kept points b) [0..<length points]))"
  by (simp add: buildPoints_def buildPoints_loop Let_def)

lemma buildPoints_sizes:
  "sizes (buildPoints points R c sz b) =
     map (\<lambda>i. sizeOrDefault sz * (0.6 + 0.8 * illumOrOne (points ! i)))
       (filter (kept points b) [0..<length points])"
  by (simp add: buildPoints_def buildPoints_loop Let_def sizeOrDefault_def)

lemma buildPoints_indexMap:
  "indexMap (buildPoints points R c sz b) = filter (kept points b) [0..<length points]"
  by (simp add: buildPoints_def buildPoints_loop Let_def)

lemma length_concat_vec3: "length (concat (map (\<lambda>j. vec3 (f j)) xs)) = 3 * length xs"
  by (induction xs) (simp_all add: vec3_def split: prod.split)

lemma pointAt_concat_vec3:
  "i < length xs \<Longrightarrow> pointAt (concat (map (\<lambda>j. vec3 (f j)) xs)) i = f (xs ! i)"
proof (induction xs arbitrary: i)
  case Nil
  then show ?case by simp
next
  case (Cons a xs)
  obtain x y z where f: "f a = (x, y, z)" by (cases "f a") auto
  show ?case
  proof (cases i)
    case 0
    then show ?thesis by (simp add: pointAt_def vec3_def f)
  next
    case (Suc k)
    with Cons.prems have k: "k < length xs" by simp
    have "pointAt (concat (map (\<lambda>j. vec3 (f j)) (a # xs))) (Suc k)
        = pointAt (concat (map (\<lambda>j. vec3 (f j)) xs)) k"
      by (simp add: pointAt_def vec3_def f)
    with Cons.IH[OF k] Suc show ?thesis by simp
  qed
qed

lemma filter_upt_nth:
  "i < length (filter P [0..<n]) \<Longrightarrow> filter P [0..<n] ! i < n \<and> P (filter P [0..<n] ! i)"
  using nth_mem[of i "filter P [0..<n]"] by auto

lemma all_less_10:
  "(\<forall>j<10. P (j::nat)) = (P 0 \<and> P 1 \<and> P 2 \<and> P 3 \<and> P 4 \<and> P 5 \<and> P 6 \<and> P 7 \<and> P 8 \<and> P 9)"
  by (simp add: eval_nat_numeral All_less_Suc) auto

lemma upt_10: "[0..<10] = [0, 1, 2, 3, 4, 5, 6, 7, 8, 9]"
  by (simp add: upt_rec)

section \<open>The curve builder in closed form\<close>

lemma length_flat: "length (flat R ps) = 3 * length ps"
  by (induction ps) (simp_all add: flat_def vec3_def split: prod.split)

lemma flat_Nil: "flat R [] = []"
  by (simp add: flat_def)


lemma segment_prefix:
  "length pre = k \<Longrightarrow> s \<le> k \<Longrightarrow> segment (pre @ rest) R (s, k) = flat R (drop s pre)"
  by (simp add: segment_def)

lemma lines_loop:
  "length pre = k \<Longrightarrow> s \<le> k \<Longrightarrow>
   fst (pushCurrent c (foldl (lines_step R c b) (lines, flat R (drop s pre)) rest)) =
     lines @ map (\<lambda>ij. mkLine c (segment (pre @ rest) R ij))
               (filter (\<lambda>(i, j). i + 2 \<le> j) (runs_from (map (visible b) rest) s k))"
proof (induction rest arbitrary: lines pre s k)
  case Nil
  then show ?case
    by (auto simp add: pushCurrent_def mkLine_def segment_def length_flat)
next
  case (Cons p rest)
  show ?case
  proof (cases "visible b p")
    case True
    have len: "length (pre @ [p]) = Suc k" and le: "s \<le> Suc k"
      using Cons.prems by simp_all
    have st: "lines_step R c b (lines, flat R (drop s pre)) p
                = (lines, flat R (drop s (pre @ [p])))"
      using True Cons.prems
      by (simp add: lines_step_def flat_def vec3_def split: prod.split)
    show ?thesis
      using Cons.IH[OF len le, of lines] True by (simp add: st)
  next
    case False
    have len: "length (pre @ [p]) = Suc k" using Cons.prems by simp
    have st: "lines_step R c b (lines, flat R (drop s pre)) p
                = (lines @ map (\<lambda>ij. mkLine c (segment (pre @ p # rest) R ij))
                     (filter (\<lambda>(i, j). i + 2 \<le> j) (if s < k then [(s, k)] else [])),
                   flat R (drop (Suc k) (pre @ [p])))"
      using False Cons.prems
      by (auto simp add: lines_step_def pushCurrent_def length_flat mkLine_def
            segment_prefix flat_Nil)
    show ?thesis
      using Cons.IH[OF len order_refl, of "lines @ map (\<lambda>ij. mkLine c (segment (pre @ p # rest) R ij))
                     (filter (\<lambda>(i, j). i + 2 \<le> j) (if s < k then [(s, k)] else []))"] False
      by (simp add: st)
  qed
qed


lemma runs_from_iff:
  "length pre = k \<Longrightarrow> s \<le> k \<Longrightarrow> \<forall>i\<in>{s..<k}. pre ! i \<Longrightarrow> s = 0 \<or> \<not> pre ! (s - 1) \<Longrightarrow>
   (i, j) \<in> set (runs_from rest s k) \<longleftrightarrow> is_maximal_run (pre @ rest) i j \<and> s \<le> i"
proof (induction rest arbitrary: pre s k)
  case Nil
  show ?case
  proof (cases "s < k")
    case False
    with Nil have "s = k" by simp
    with Nil show ?thesis by (auto simp add: is_maximal_run_def)
  next
    case True
    have "is_maximal_run pre i j \<and> s \<le> i \<longleftrightarrow> i = s \<and> j = k"
    proof
      assume a: "is_maximal_run pre i j \<and> s \<le> i"
      then have ij: "i < j" "j \<le> k" "s \<le> i" and st: "i = 0 \<or> \<not> pre ! (i - 1)"
        and en: "j = k \<or> \<not> pre ! j"
        using Nil by (auto simp add: is_maximal_run_def)
      have "i = s"
      proof (rule ccontr)
        assume "i \<noteq> s"
        with ij have "i - 1 \<in> {s..<k}" "i \<noteq> 0" by auto
        with Nil.prems(3) st show False by blast
      qed
      moreover have "j = k"
      proof (rule ccontr)
        assume "j \<noteq> k"
        with ij have "j \<in> {s..<k}" by auto
        with Nil.prems(3) en \<open>j \<noteq> k\<close> show False by blast
      qed
      ultimately show "i = s \<and> j = k" by simp
    next
      assume "i = s \<and> j = k"
      with True Nil show "is_maximal_run pre i j \<and> s \<le> i"
        by (auto simp add: is_maximal_run_def)
    qed
    with True show ?thesis by auto
  qed
next
  case (Cons v rest)
  have app: "pre @ v # rest = (pre @ [v]) @ rest" by simp
  have len: "length (pre @ [v]) = Suc k" using Cons.prems by simp
  show ?case
  proof (cases v)
    case True
    have a: "s \<le> Suc k" using Cons.prems by simp
    have b: "\<forall>i\<in>{s..<Suc k}. (pre @ [v]) ! i"
      using Cons.prems True by (auto simp add: nth_append)
    have c: "s = 0 \<or> \<not> (pre @ [v]) ! (s - 1)"
      using Cons.prems True by (cases "s = 0") (auto simp add: nth_append)
    show ?thesis
      using Cons.IH[OF len a b c] True by simp
  next
    case False
    have b: "\<forall>i\<in>{Suc k..<Suc k}. (pre @ [v]) ! i" by simp
    have c: "Suc k = 0 \<or> \<not> (pre @ [v]) ! (Suc k - 1)"
      using Cons.prems False by (simp add: nth_append)
    have ih: "(i, j) \<in> set (runs_from rest (Suc k) (Suc k)) \<longleftrightarrow>
              is_maximal_run (pre @ v # rest) i j \<and> Suc k \<le> i"
      using Cons.IH[OF len order_refl b c] by simp
    have vk: "\<not> (pre @ v # rest) ! k" using Cons.prems False by (simp add: nth_append)
    have low: "is_maximal_run (pre @ v # rest) i j \<and> s \<le> i \<and> i \<le> k \<longleftrightarrow>
               s < k \<and> i = s \<and> j = k"
    proof
      assume a: "is_maximal_run (pre @ v # rest) i j \<and> s \<le> i \<and> i \<le> k"
      then have ij: "i < j" "s \<le> i" "i \<le> k"
        and al: "\<forall>m\<in>{i..<j}. (pre @ v # rest) ! m"
        and st: "i = 0 \<or> \<not> (pre @ v # rest) ! (i - 1)"
        and en: "j = length (pre @ v # rest) \<or> \<not> (pre @ v # rest) ! j"
        by (auto simp add: is_maximal_run_def)
      have jk: "j \<le> k"
      proof (rule ccontr)
        assume "\<not> j \<le> k"
        with ij have "k \<in> {i..<j}" by auto
        with al vk show False by blast
      qed
      have "i = s"
      proof (rule ccontr)
        assume "i \<noteq> s"
        with ij jk have m: "i - 1 \<in> {s..<k}" "i \<noteq> 0" "i - 1 < length pre"
          using Cons.prems by auto
        then have "pre ! (i - 1)" using Cons.prems(3) by blast
        then have "(pre @ v # rest) ! (i - 1)" using m by (simp add: nth_append)
        with st m show False by blast
      qed
      moreover have "j = k"
      proof (rule ccontr)
        assume "j \<noteq> k"
        with ij jk have m: "j \<in> {s..<k}" "j < length pre" using Cons.prems by auto
        then have "pre ! j" using Cons.prems(3) by blast
        then have "(pre @ v # rest) ! j" using m by (simp add: nth_append)
        moreover have "j \<noteq> length (pre @ v # rest)" using m by simp
        ultimately show False using en by blast
      qed
      ultimately show "s < k \<and> i = s \<and> j = k" using ij by simp
    next
      assume a: "s < k \<and> i = s \<and> j = k"
      have "\<forall>m\<in>{s..<k}. (pre @ v # rest) ! m"
        using Cons.prems by (auto simp add: nth_append)
      moreover have "s = 0 \<or> \<not> (pre @ v # rest) ! (s - 1)"
        using Cons.prems a by (cases "s = 0") (auto simp add: nth_append)
      ultimately show "is_maximal_run (pre @ v # rest) i j \<and> s \<le> i \<and> i \<le> k"
        using a vk Cons.prems by (simp add: is_maximal_run_def)
    qed
    have "(i, j) \<in> set (runs_from (v # rest) s k) \<longleftrightarrow>
          (s < k \<and> i = s \<and> j = k) \<or> (i, j) \<in> set (runs_from rest (Suc k) (Suc k))"
      using False by auto
    also have "\<dots> \<longleftrightarrow> (is_maximal_run (pre @ v # rest) i j \<and> s \<le> i \<and> i \<le> k) \<or>
                        (is_maximal_run (pre @ v # rest) i j \<and> Suc k \<le> i)"
      by (simp only: low ih)
    also have "\<dots> \<longleftrightarrow> is_maximal_run (pre @ v # rest) i j \<and> s \<le> i"
      using Cons.prems by auto
    finally show ?thesis .
  qed
qed


lemma runs_from_bounds:
  "s \<le> k \<Longrightarrow> (i, j) \<in> set (runs_from vs s k) \<Longrightarrow> s \<le> i \<and> i < j"
proof (induction vs arbitrary: s k)
  case Nil
  then show ?case by (simp split: if_splits)
next
  case (Cons v vs)
  show ?case
  proof (cases v)
    case True
    with Cons.prems have "(i, j) \<in> set (runs_from vs s (Suc k))" by simp
    with Cons.IH[of s "Suc k"] Cons.prems show ?thesis by simp
  next
    case False
    with Cons.prems have "(s < k \<and> i = s \<and> j = k) \<or> (i, j) \<in> set (runs_from vs (Suc k) (Suc k))"
      by (auto split: if_splits)
    then show ?thesis
    proof
      assume "s < k \<and> i = s \<and> j = k"
      then show ?thesis by simp
    next
      assume "(i, j) \<in> set (runs_from vs (Suc k) (Suc k))"
      with Cons.IH[of "Suc k" "Suc k"] Cons.prems show ?thesis by simp
    qed
  qed
qed

lemma runs_from_sorted:
  "s \<le> k \<Longrightarrow> sorted_wrt (\<lambda>a b. snd a < fst b) (runs_from vs s k)"
proof (induction vs arbitrary: s k)
  case Nil
  show ?case by simp
next
  case (Cons v vs)
  show ?case
  proof (cases v)
    case True
    with Cons.IH[of s "Suc k"] Cons.prems show ?thesis by simp
  next
    case False
    have "\<forall>b\<in>set (runs_from vs (Suc k) (Suc k)). k < fst b"
      by (auto dest: runs_from_bounds[OF order_refl])
    with Cons.IH[of "Suc k" "Suc k"] False show ?thesis
      by (simp add: sorted_wrt_append)
  qed
qed

lemma runs_from_strict_sorted: "sorted_wrt (<) (runs_from vs 0 0)"
proof (rule sorted_wrt_mono_rel[OF _ runs_from_sorted[of 0 0 vs]])
  fix a b :: "nat \<times> nat"
  assume "a \<in> set (runs_from vs 0 0)" and "snd a < fst b"
  moreover from this have "fst a < snd a"
    using runs_from_bounds[of 0 0 "fst a" "snd a" vs] by simp
  ultimately show "a < b" by (simp add: less_prod_def)
next
  show "0 \<le> (0::nat)" by simp
qed

lemma product_strict_sorted:
  "sorted_wrt (<) xs \<Longrightarrow> sorted_wrt (<) ys \<Longrightarrow> sorted_wrt (<) (List.product xs (ys :: nat list))"
  for xs :: "nat list"
  by (induction xs) (auto simp add: sorted_wrt_append sorted_wrt_map less_prod_def)

lemma maximal_runs_strict_sorted: "sorted_wrt (<) (maximal_runs vs)"
  unfolding maximal_runs_def
  by (rule sorted_wrt_filter, rule product_strict_sorted) (rule sorted_wrt_upt)+

lemma set_maximal_runs: "set (maximal_runs vs) = {(i, j). is_maximal_run vs i j}"
  by (auto simp add: maximal_runs_def is_maximal_run_def)

lemma set_runs_from: "set (runs_from vs 0 0) = {(i, j). is_maximal_run vs i j}"
  using runs_from_iff[of "[]" 0 0 _ _ vs] by auto

lemma runs_from_maximal_runs: "runs_from vs 0 0 = maximal_runs vs"
  by (rule strict_sorted_equal)
     (simp_all add: runs_from_strict_sorted maximal_runs_strict_sorted
        set_maximal_runs set_runs_from)


lemma buildLines_closed_form:
  "buildTrajectoryLinesSplitByHorizon points R color b =
     map (\<lambda>ij. mkLine color (segment points R ij))
       (filter (\<lambda>(i, j). i + 2 \<le> j) (maximal_runs (map (visible b) points)))"
  using lines_loop[of "[]" 0 0 color R b "[]" points]
  by (simp add: buildTrajectoryLinesSplitByHorizon_def flat_Nil runs_from_maximal_runs)

lemma list4: "length xs = 4 \<Longrightarrow> \<exists>a b c d. xs = [a, b, c, d]"
  by (auto simp add: length_Suc_conv eval_nat_numeral)

lemma runs_example: "maximal_runs [True, False, True, True] = [(0, 1), (2, 4)]"
  by (simp add: runs_from_maximal_runs[symmetric])

section \<open>Projected points lie on the sphere\<close>

lemma sum_squares_factor:
  "(R * c * s)\<^sup>2 + (R * u)\<^sup>2 + (R * c * d)\<^sup>2 = R\<^sup>2 * (c\<^sup>2 * (s\<^sup>2 + d\<^sup>2) + u\<^sup>2)"
  for R :: real
  by (simp add: power_mult_distrib algebra_simps)

lemma toXYZ_on_sphere: "onSphere R (toXYZ p R)"
proof -
  have "(R * cos (alt p) * sin (azN p))\<^sup>2 + (R * sin (alt p))\<^sup>2 + (R * cos (alt p) * cos (azN p))\<^sup>2
      = R\<^sup>2 * ((cos (alt p))\<^sup>2 * ((sin (azN p))\<^sup>2 + (cos (azN p))\<^sup>2) + (sin (alt p))\<^sup>2)"
    by (rule sum_squares_factor)
  also have "\<dots> = R\<^sup>2" by simp
  finally show ?thesis by (simp add: onSphere_def toXYZ_def Let_def)
qed

lemma flat_points_on_sphere:
  "length (flat R ps) = 3 * pointCount (flat R ps) \<and>
   (\<forall>i<pointCount (flat R ps). onSphere R (pointAt (flat R ps) i))"
proof -
  have pc: "pointCount (flat R ps) = length ps"
    by (simp add: pointCount_def length_flat)
  have "onSphere R (pointAt (flat R ps) i)" if "i < length ps" for i
    using pointAt_concat_vec3[OF that, of "\<lambda>p. toXYZ p R"]
    by (simp add: flat_def toXYZ_on_sphere)
  with pc show ?thesis by (simp add: length_flat)
qed

lemma map_nth_upt: "map (\<lambda>i. g (xs ! i)) [0..<length xs] = map g xs"
  by (rule nth_equalityI) simp_all

section \<open>Reduction modulo a full turn\<close>

lemma floor_mod_range:
  assumes "0 < (n::real)"
  shows "0 \<le> a - n * of_int \<lfloor>a / n\<rfloor> \<and> a - n * of_int \<lfloor>a / n\<rfloor> < n"
proof -
  have "of_int \<lfloor>a / n\<rfloor> \<le> a / n" by linarith
  then have lo: "of_int \<lfloor>a / n\<rfloor> * n \<le> a"
    using assms by (simp only: pos_le_divide_eq)
  have "a / n < of_int \<lfloor>a / n\<rfloor> + 1" by linarith
  then have hi: "a < (of_int \<lfloor>a / n\<rfloor> + 1) * n"
    using assms by (simp only: pos_divide_less_eq)
  from lo hi show ?thesis by (simp add: algebra_simps)
qed

lemma normalise_rem:
  assumes "0 < (n::real)"
  shows "(if js_rem a n < 0 then js_rem a n + n else js_rem a n) = a - n * of_int \<lfloor>a / n\<rfloor>"
proof (cases "0 \<le> a / n")
  case True
  then have "js_rem a n = a - n * of_int \<lfloor>a / n\<rfloor>" by (simp add: js_rem_def)
  with floor_mod_range[OF assms, of a] show ?thesis by simp
next
  case False
  then have r: "js_rem a n = a - n * of_int \<lceil>a / n\<rceil>" by (simp add: js_rem_def)
  show ?thesis
  proof (cases "a / n = of_int \<lfloor>a / n\<rfloor>")
    case True
    then have "\<lceil>a / n\<rceil> = \<lfloor>a / n\<rfloor>" by (simp add: ceiling_altdef)
    with r floor_mod_range[OF assms, of a] show ?thesis by simp
  next
    case False
    then have c: "\<lceil>a / n\<rceil> = \<lfloor>a / n\<rfloor> + 1" by (simp add: ceiling_altdef)
    have "a - n * of_int \<lfloor>a / n\<rfloor> \<noteq> 0"
    proof
      assume "a - n * of_int \<lfloor>a / n\<rfloor> = 0"
      then have "a / n = of_int \<lfloor>a / n\<rfloor>" using assms by (simp add: field_simps)
      with False show False by simp
    qed
    with floor_mod_range[OF assms, of a]
    have "0 < a - n * of_int \<lfloor>a / n\<rfloor>" "a - n * of_int \<lfloor>a / n\<rfloor> < n" by linarith+
    then have "js_rem a n < 0" "js_rem a n + n = a - n * of_int \<lfloor>a / n\<rfloor>"
      by (simp_all add: r c algebra_simps)
    then show ?thesis by simp
  qed
qed

lemma toAzFromNorth_mod2pi: "toAzFromNorth a = mod2pi (a + pi)"
  using normalise_rem[of "pi * 2" "a + pi"]
  by (simp add: toAzFromNorth_def mod2pi_def Let_def mult.commute)

lemma mod2pi_range: "0 \<le> mod2pi a \<and> mod2pi a < 2 * pi"
  using floor_mod_range[of "2 * pi" a] by (simp add: mod2pi_def)

lemma mod2pi_id: "0 \<le> a \<Longrightarrow> a < 2 * pi \<Longrightarrow> mod2pi a = a"
proof -
  assume "0 \<le> a" "a < 2 * pi"
  then have "0 \<le> a / (2 * pi)" "a / (2 * pi) < 1" by (simp_all add: field_simps)
  then have "\<lfloor>a / (2 * pi)\<rfloor> = 0" by linarith
  then show ?thesis by (simp add: mod2pi_def)
qed

lemma mod2pi_shift: "mod2pi (a + 2 * pi * of_int k) = mod2pi a"
proof -
  have "(a + 2 * pi * of_int k) / (2 * pi) = a / (2 * pi) + of_int k"
    by (simp add: field_simps)
  then have "\<lfloor>(a + 2 * pi * of_int k) / (2 * pi)\<rfloor> = \<lfloor>a / (2 * pi)\<rfloor> + k"
    by simp
  then show ?thesis by (simp add: mod2pi_def algebra_simps)
qed

lemma mod2pi_mod2pi_add: "mod2pi (mod2pi a + b) = mod2pi (a + b)"
proof -
  have "mod2pi a + b = (a + b) + 2 * pi * of_int (- \<lfloor>a / (2 * pi)\<rfloor>)"
    by (simp add: mod2pi_def)
  then show ?thesis by (simp only: mod2pi_shift)
qed

section \<open>The sampling loop in closed form\<close>

lemma sampleInstants_0: "sampleInstants start stepMin 0 = []"
  by (simp add: sampleInstants_def)

lemma sampleInstants_Suc:
  "sampleInstants start stepMin (Suc n) = start # sampleInstants (start + stepMin * 60000) stepMin n"
proof -
  have "[0..<Suc n] = 0 # map Suc [0..<n]"
    by (simp only: map_Suc_upt upt_conv_Cons[of 0 "Suc n"] zero_less_Suc)
  then show ?thesis
    by (simp add: sampleInstants_def comp_def algebra_simps del: upt_Suc)
qed

lemma sun_loop_closed:
  assumes "0 < stepMin"
  shows "sun_loop env lat lon stepMin endT dt pts =
     Some (pts @ map (sunPoint env lat lon)
       (sampleInstants dt stepMin
          (nat ((endT - dt + stepMin * 60000 - 1) div (stepMin * 60000)))))"
proof (induction "nat (endT - dt)" arbitrary: dt pts rule: less_induct)
  case less
  define step where "step = stepMin * 60000"
  have step: "0 < step" using assms by (simp add: step_def)
  show ?case
  proof (cases "dt < endT")
    case False
    then have "endT - dt + step - 1 < step" by simp
    then have "(endT - dt + step - 1) div step \<le> 0"
      using step pos_imp_zdiv_pos_iff[of step "endT - dt + step - 1"] by simp
    then have "nat ((endT - dt + step - 1) div step) = 0" by simp
    with False show ?thesis
      by (subst sun_loop.simps) (simp add: step_def sampleInstants_0)
  next
    case True
    have m: "nat (endT - (dt + step)) < nat (endT - dt)" using True step by simp
    have "(endT - dt + step - 1) div step = (endT - dt - 1) div step + 1"
      using step div_add_self2[of step "endT - dt - 1"] by (simp add: algebra_simps)
    moreover have "0 \<le> (endT - dt - 1) div step"
      using True step by (simp add: pos_imp_zdiv_nonneg_iff)
    ultimately have c: "nat ((endT - dt + step - 1) div step) =
                        Suc (nat ((endT - (dt + step) + step - 1) div step))"
      by simp
    have "sun_loop env lat lon stepMin endT dt pts =
          sun_loop env lat lon stepMin endT (dt + step) (pts @ [sunPoint env lat lon dt])"
      using True by (subst sun_loop.simps) (simp add: step_def)
    also have "\<dots> = Some ((pts @ [sunPoint env lat lon dt]) @ map (sunPoint env lat lon)
       (sampleInstants (dt + step) stepMin
          (nat ((endT - (dt + step) + step - 1) div step))))"
      using less[OF m[unfolded step_def]] by (simp only: step_def)
    also have "\<dots> = Some (pts @ map (sunPoint env lat lon)
       (sampleInstants dt stepMin (nat ((endT - dt + step - 1) div step))))"
      by (simp only: c sampleInstants_Suc) (simp add: step_def)
    finally show ?thesis by (simp only: step_def)
  qed
qed

lemma t_sunPoint: "map t (map (sunPoint env lat lon) xs) = xs"
  by (induction xs) (simp_all add: sunPoint_def Let_def)

lemma sampleInstants_sorted: "0 < stepMin \<Longrightarrow> sorted_wrt (<) (sampleInstants start stepMin n)"
  unfolding sampleInstants_def sorted_wrt_map
  by (rule sorted_wrt_mono_rel[OF _ sorted_wrt_upt]) simp


lemma sampleInstants_length: "length (sampleInstants start stepMin n) = n"
  by (simp add: sampleInstants_def)

lemma sampleInstants_nth: "k < n \<Longrightarrow> sampleInstants start stepMin n ! k = start + int k * (stepMin * 60000)"
  by (simp add: sampleInstants_def)

section \<open>Trimming a query\<close>


section \<open>Size of the raster\<close>

lemma length_moonPixel: "length (moonPixel lx lz litRGB darkRGB cx cy r x' y') = 4"
  unfolding moonPixel_def Let_def by (simp only: if_distrib[of length] list.size if_cancel)

lemma length_concat_const:
  "(\<And>x. length (f x) = n) \<Longrightarrow> length (concat (map f xs)) = n * length xs"
  by (induction xs) simp_all

lemma length_moonPhaseImage: "length (moonPhaseImage ill dark) = 64 * 64 * 4"
proof -
  have row: "length (concat (map (\<lambda>x'. moonPixel lx lz l d cx cy r x' y') [0..<64])) = 4 * 64"
    for lx lz l d cx cy r y'
    using length_concat_const[of "\<lambda>x'. moonPixel lx lz l d cx cy r x' y'" 4 "[0..<64]"]
    by (simp add: length_moonPixel)
  show ?thesis
    unfolding moonPhaseImage_def Let_def
    using length_concat_const[of "\<lambda>y'. concat (map (\<lambda>x'. moonPixel (sin (2 * pi * phase ill)) (- cos (2 * pi * phase ill))
          \<lparr>red = 225, green = 222, blue = 210\<rparr>
          (if dark then \<lparr>red = 20, green = 26, blue = 42\<rparr> else \<lparr>red = 220, green = 226, blue = 242\<rparr>)
          (real 64 / 2) (real 64 / 2) (real 64 * 0.45) x' y') [0..<64])" "4 * 64" "[0..<64]"]
    by (simp only: row length_upt)
qed

section \<open>The request of a search\<close>


section \<open>Index map of the point set\<close>

text \<open>
  C1. For every trajectory, radius, visibility policy and base size, the position
  attribute of \<open>buildPoints\<close> holds as many points as there are sizes and index
  map entries; the index map is strictly increasing and lists exactly the
  samples that are not skipped; emitted point \<open>i\<close> is the projection, with the
  size, of the sample at \<open>indexMap[i]\<close>. For ten samples of which those at
  indices 2, 5 and 7 have negative altitude, without sub-horizon points, seven
  points are emitted and the index map is \<open>[0,1,3,4,6,8,9]\<close>.
\<close>

theorem buildPoints_index_map_correct:
  "let r = buildPoints points R color sz b in
     pointCount (verts r) = length (indexMap r) \<and>
     length (verts r) = 3 * length (indexMap r) \<and>
     length (sizes r) = length (indexMap r) \<and>
     sorted_wrt (<) (indexMap r) \<and>
     set (indexMap r) = {i. i < length points \<and> kept points b i} \<and>
     (\<forall>i<length (indexMap r).
        indexMap r ! i < length points \<and>
        pointAt (verts r) i = toXYZ (points ! (indexMap r ! i)) R \<and>
        sizes r ! i = sizeOrDefault sz * (0.6 + 0.8 * illumOrOne (points ! (indexMap r ! i)))) \<and>
     (length points = 10 \<and> \<not> b \<and> (\<forall>j<10. (alt (points ! j) < 0) = (j \<in> {2, 5, 7})) \<longrightarrow>
        pointCount (verts r) = 7 \<and> indexMap r = [0, 1, 3, 4, 6, 8, 9])"
proof -
  define ks where "ks = filter (kept points b) [0..<length points]"
  have v: "verts (buildPoints points R color sz b) =
             concat (map (\<lambda>i. vec3 (toXYZ (points ! i) R)) ks)"
    by (simp add: buildPoints_verts ks_def)
  have s: "sizes (buildPoints points R color sz b) =
             map (\<lambda>i. sizeOrDefault sz * (0.6 + 0.8 * illumOrOne (points ! i))) ks"
    by (simp add: buildPoints_sizes ks_def)
  have m: "indexMap (buildPoints points R color sz b) = ks"
    by (simp add: buildPoints_indexMap ks_def)
  have len: "length (concat (map (\<lambda>i. vec3 (toXYZ (points ! i) R)) ks)) = 3 * length ks"
    by (rule length_concat_vec3)
  have sorted: "sorted_wrt (<) ks"
    unfolding ks_def by (rule sorted_wrt_filter) (rule sorted_wrt_upt)
  have set: "set ks = {i. i < length points \<and> kept points b i}"
    by (auto simp add: ks_def)
  have each: "\<forall>i<length ks.
        ks ! i < length points \<and>
        pointAt (concat (map (\<lambda>i. vec3 (toXYZ (points ! i) R)) ks)) i = toXYZ (points ! (ks ! i)) R \<and>
        map (\<lambda>i. sizeOrDefault sz * (0.6 + 0.8 * illumOrOne (points ! i))) ks ! i =
          sizeOrDefault sz * (0.6 + 0.8 * illumOrOne (points ! (ks ! i)))"
  proof (intro allI impI conjI)
    fix i assume i: "i < length ks"
    then show "ks ! i < length points"
      using filter_upt_nth[of i "kept points b" "length points"] by (simp add: ks_def)
    show "pointAt (concat (map (\<lambda>i. vec3 (toXYZ (points ! i) R)) ks)) i = toXYZ (points ! (ks ! i)) R"
      using i by (rule pointAt_concat_vec3)
    show "map (\<lambda>i. sizeOrDefault sz * (0.6 + 0.8 * illumOrOne (points ! i))) ks ! i =
          sizeOrDefault sz * (0.6 + 0.8 * illumOrOne (points ! (ks ! i)))"
      using i by simp
  qed
  have pc: "pointCount (concat (map (\<lambda>i. vec3 (toXYZ (points ! i) R)) ks)) = length ks"
    by (simp add: pointCount_def len)
  have ls: "length (map (\<lambda>i. sizeOrDefault sz * (0.6 + 0.8 * illumOrOne (points ! i))) ks) = length ks"
    by simp
  have ex: "length points = 10 \<and> \<not> b \<and> (\<forall>j<10. (alt (points ! j) < 0) = (j \<in> {2, 5, 7})) \<longrightarrow>
        pointCount (concat (map (\<lambda>i. vec3 (toXYZ (points ! i) R)) ks)) = 7 \<and>
        ks = [0, 1, 3, 4, 6, 8, 9]"
  proof (intro impI)
    assume a: "length points = 10 \<and> \<not> b \<and> (\<forall>j<10. (alt (points ! j) < 0) = (j \<in> {2, 5, 7}))"
    then have k: "ks = [0, 1, 3, 4, 6, 8, 9]"
      by (simp add: ks_def upt_10 kept_def all_less_10)
    then have "length ks = 7" by simp
    with pc k show "pointCount (concat (map (\<lambda>i. vec3 (toXYZ (points ! i) R)) ks)) = 7 \<and>
        ks = [0, 1, 3, 4, 6, 8, 9]"
      by (simp only: simp_thms)
  qed
  show ?thesis
    unfolding Let_def v s m
    by (intro conjI pc len ls sorted set each ex)
qed

text \<open>The ten-sample example on a concrete trajectory.\<close>

theorem buildPoints_index_map_witness:
  "indexMap (buildPoints
     (map (\<lambda>a. \<lparr>t = 0, azN = 0, alt = a, illum = None\<rparr>) [1, 1, - 1, 1, 1, - 1, 1, - 1, 1, 1])
     1 ''#ff8a3d'' (Some 0.09) False) = [0, 1, 3, 4, 6, 8, 9] \<and>
   pointCount (verts (buildPoints
     (map (\<lambda>a. \<lparr>t = 0, azN = 0, alt = a, illum = None\<rparr>) [1, 1, - 1, 1, 1, - 1, 1, - 1, 1, 1])
     1 ''#ff8a3d'' (Some 0.09) False)) = 7"
  using buildPoints_index_map_correct[of
     "map (\<lambda>a. \<lparr>t = 0, azN = 0, alt = a, illum = None\<rparr>) [1, 1, - 1, 1, 1, - 1, 1, - 1, 1, 1]"
     1 "''#ff8a3d''" "Some 0.09" False]
  by (simp add: Let_def all_less_10)

section \<open>Horizon segmentation\<close>

text \<open>
  C2. For every trajectory the curve builder emits, in input order, one polyline
  for each maximal run of consecutive visible samples that has at least two
  samples, and nothing else; a sample is visible iff sub-horizon points are shown
  or its altitude is at least 0, so altitude 0 is visible under either policy.
  For the altitudes +5, -3, +2, +1 degrees without sub-horizon points the result is
  one polyline of two points.
\<close>

theorem curve_builder_maximal_runs:
  "buildTrajectoryLinesSplitByHorizon points R color b =
     map (\<lambda>ij. mkLine color (segment points R ij))
       (filter (\<lambda>(i, j). i + 2 \<le> j) (maximal_runs (map (visible b) points))) \<and>
   visible b p = (b \<or> alt p \<ge> 0) \<and>
   (alt p = 0 \<longrightarrow> visible b p) \<and>
   (length points = 4 \<and> alt (points ! 0) = 5 * pi / 180 \<and> alt (points ! 1) = - 3 * pi / 180 \<and>
    alt (points ! 2) = 2 * pi / 180 \<and> alt (points ! 3) = 1 * pi / 180 \<longrightarrow>
      map position (buildTrajectoryLinesSplitByHorizon points R color False) =
        [vec3 (toXYZ (points ! 2) R) @ vec3 (toXYZ (points ! 3) R)] \<and>
      length (buildTrajectoryLinesSplitByHorizon points R color False) = 1 \<and>
      pointCount (position (buildTrajectoryLinesSplitByHorizon points R color False ! 0)) = 2)"
proof (intro conjI impI)
  show "buildTrajectoryLinesSplitByHorizon points R color b =
     map (\<lambda>ij. mkLine color (segment points R ij))
       (filter (\<lambda>(i, j). i + 2 \<le> j) (maximal_runs (map (visible b) points)))"
    by (rule buildLines_closed_form)
  show "visible b p = (b \<or> alt p \<ge> 0)" by (simp add: visible_def)
  show "visible b p" if "alt p = 0" using that by (simp add: visible_def)
next
  assume a: "length points = 4 \<and> alt (points ! 0) = 5 * pi / 180 \<and>
    alt (points ! 1) = - 3 * pi / 180 \<and> alt (points ! 2) = 2 * pi / 180 \<and>
    alt (points ! 3) = 1 * pi / 180"
  then obtain p0 p1 p2 p3 where ps: "points = [p0, p1, p2, p3]"
    using list4[of points] by auto
  have "0 \<le> 5 * pi / 180" "\<not> 0 \<le> - 3 * pi / 180" "0 \<le> 2 * pi / 180" "0 \<le> 1 * pi / 180"
    using pi_gt_zero by (simp_all add: not_le)
  with a have "0 \<le> alt (points ! 0)" "\<not> 0 \<le> alt (points ! 1)" "0 \<le> alt (points ! 2)"
    "0 \<le> alt (points ! 3)"
    by (simp_all only: simp_thms)
  then have vis: "map (visible False) points = [True, False, True, True]"
    by (simp add: visible_def ps)
  have r: "buildTrajectoryLinesSplitByHorizon points R color False =
        [mkLine color (vec3 (toXYZ (points ! 2) R) @ vec3 (toXYZ (points ! 3) R))]"
    by (simp add: buildLines_closed_form vis runs_example)
       (simp add: ps segment_def flat_def)
  show "map position (buildTrajectoryLinesSplitByHorizon points R color False) =
        [vec3 (toXYZ (points ! 2) R) @ vec3 (toXYZ (points ! 3) R)]"
    by (simp add: r mkLine_def)
  show "length (buildTrajectoryLinesSplitByHorizon points R color False) = 1"
    by (simp add: r)
  show "pointCount (position (buildTrajectoryLinesSplitByHorizon points R color False ! 0)) = 2"
    by (simp add: r mkLine_def pointCount_def vec3_def split: prod.split)
qed

text \<open>The four-sample example on a concrete trajectory.\<close>

theorem curve_builder_example:
  "map position (buildTrajectoryLinesSplitByHorizon
     (map (\<lambda>a. \<lparr>t = 0, azN = 0, alt = a, illum = None\<rparr>)
        [5 * pi / 180, - 3 * pi / 180, 2 * pi / 180, 1 * pi / 180]) 1 ''#ff8a3d'' False) =
     [[cos (2 * pi / 180) * sin 0, sin (2 * pi / 180), cos (2 * pi / 180) * cos 0,
       cos (1 * pi / 180) * sin 0, sin (1 * pi / 180), cos (1 * pi / 180) * cos 0]] \<and>
   length (buildTrajectoryLinesSplitByHorizon
     (map (\<lambda>a. \<lparr>t = 0, azN = 0, alt = a, illum = None\<rparr>)
        [5 * pi / 180, - 3 * pi / 180, 2 * pi / 180, 1 * pi / 180]) 1 ''#ff8a3d'' False) = 1"
  using curve_builder_maximal_runs[of
     "map (\<lambda>a. \<lparr>t = 0, azN = 0, alt = a, illum = None\<rparr>)
        [5 * pi / 180, - 3 * pi / 180, 2 * pi / 180, 1 * pi / 180]" 1 "''#ff8a3d''" False
     "\<lparr>t = 0, azN = 0, alt = 0, illum = None\<rparr>",
     THEN conjunct2, THEN conjunct2, THEN conjunct2]
  by (simp add: toXYZ_def vec3_def Let_def)

section \<open>Projection\<close>

text \<open>
  C5. For every sample and radius \<open>R\<close> the projector returns \<open>(x, y, z)\<close> with
  \<open>r = R cos(alt)\<close>, \<open>x = r sin(az)\<close>, \<open>y = R sin(alt)\<close>, \<open>z = r cos(az)\<close>; at the
  zenith, altitude \<open>\<pi>/2\<close>, the point is \<open>(0, R, 0)\<close> whatever the azimuth.
\<close>

theorem toXYZ_projection:
  "toXYZ p R = (R * cos (alt p) * sin (azN p), R * sin (alt p), R * cos (alt p) * cos (azN p)) \<and>
   (alt p = pi / 2 \<longrightarrow> toXYZ p R = (0, R, 0))"
proof (intro conjI impI)
  show "toXYZ p R =
    (R * cos (alt p) * sin (azN p), R * sin (alt p), R * cos (alt p) * cos (azN p))"
    by (simp add: toXYZ_def Let_def)
next
  assume "alt p = pi / 2"
  then have "cos (alt p) = 0" "sin (alt p) = 1"
    by (simp_all only: cos_pi_half sin_pi_half)
  then show "toXYZ p R = (0, R, 0)"
    by (simp add: toXYZ_def Let_def)
qed

text \<open>The zenith at azimuth 1 and radius 3.\<close>

theorem toXYZ_zenith_example:
  "toXYZ \<lparr>t = 0, azN = 1, alt = pi / 2, illum = None\<rparr> 3 = (0, 3, 0)"
  using toXYZ_projection[of "\<lparr>t = 0, azN = 1, alt = pi / 2, illum = None\<rparr>" 3]
  by simp

text \<open>
  C9. The projected point of every sample satisfies \<open>x\<^sup>2 + y\<^sup>2 + z\<^sup>2 = R\<^sup>2\<close>; hence
  every vertex of every polyline of the curve builder, and every vertex of the
  point set, lies on the sphere of radius \<open>R\<close> (the position arrays consist of
  whole triples).
\<close>

theorem vertices_on_sphere:
  "(case toXYZ p R of (x, y, z) \<Rightarrow> x\<^sup>2 + y\<^sup>2 + z\<^sup>2 = R\<^sup>2) \<and>
   (\<forall>l\<in>set (buildTrajectoryLinesSplitByHorizon points R color b).
      length (position l) = 3 * pointCount (position l) \<and>
      (\<forall>i<pointCount (position l). onSphere R (pointAt (position l) i))) \<and>
   length (verts (buildPoints points R color sz b)) =
     3 * pointCount (verts (buildPoints points R color sz b)) \<and>
   (\<forall>i<pointCount (verts (buildPoints points R color sz b)).
      onSphere R (pointAt (verts (buildPoints points R color sz b)) i))"
proof (intro conjI ballI)
  show "case toXYZ p R of (x, y, z) \<Rightarrow> x\<^sup>2 + y\<^sup>2 + z\<^sup>2 = R\<^sup>2"
    using toXYZ_on_sphere[of R p] by (simp add: onSphere_def)
next
  fix l assume "l \<in> set (buildTrajectoryLinesSplitByHorizon points R color b)"
  then obtain ij where "position l = segment points R ij"
    by (auto simp add: buildLines_closed_form mkLine_def)
  then have l: "position l = flat R (take (snd ij - fst ij) (drop (fst ij) points))"
    by (simp add: segment_def)
  show "length (position l) = 3 * pointCount (position l)"
    unfolding l using flat_points_on_sphere by blast
  show "\<forall>i<pointCount (position l). onSphere R (pointAt (position l) i)"
    unfolding l using flat_points_on_sphere by blast
next
  have v: "verts (buildPoints points R color sz b) =
             flat R (map (\<lambda>i. points ! i) (filter (kept points b) [0..<length points]))"
    by (simp add: buildPoints_verts flat_def comp_def)
  show "length (verts (buildPoints points R color sz b)) =
     3 * pointCount (verts (buildPoints points R color sz b))"
    unfolding v using flat_points_on_sphere by blast
  show "\<forall>i<pointCount (verts (buildPoints points R color sz b)).
      onSphere R (pointAt (verts (buildPoints points R color sz b)) i)"
    unfolding v using flat_points_on_sphere by blast
qed

text \<open>Two samples on the horizon, radius 2.\<close>

theorem vertices_on_sphere_example:
  "onSphere 2 (pointAt (position (buildTrajectoryLinesSplitByHorizon
      [\<lparr>t = 0, azN = 0, alt = 0, illum = None\<rparr>, \<lparr>t = 600000, azN = pi, alt = 0, illum = None\<rparr>]
      2 ''#ff8a3d'' True ! 0)) 1) \<and>
   onSphere 2 (pointAt (verts (buildPoints
      [\<lparr>t = 0, azN = 0, alt = 0, illum = None\<rparr>, \<lparr>t = 600000, azN = pi, alt = 0, illum = None\<rparr>]
      2 ''#ff8a3d'' None True)) 0)"
proof -
  let ?ps = "[\<lparr>t = 0, azN = 0, alt = 0, illum = None\<rparr>, \<lparr>t = 600000, azN = pi, alt = 0, illum = None\<rparr>]"
  have l: "buildTrajectoryLinesSplitByHorizon ?ps 2 ''#ff8a3d'' True =
             [\<lparr>position = [0, 0, 2, 0, 0, - 2], lineColor = ''#ff8a3d''\<rparr>]"
    by (simp add: buildTrajectoryLinesSplitByHorizon_def lines_step_def pushCurrent_def
          visible_def toXYZ_def)
  have v: "verts (buildPoints ?ps 2 ''#ff8a3d'' None True) = [0, 0, 2, 0, 0, - 2]"
    by (simp add: buildPoints_verts kept_def upt_rec vec3_def toXYZ_def)
  show ?thesis
    using vertices_on_sphere[where p = "\<lparr>t = 0, azN = 0, alt = 0, illum = None\<rparr>" and R = 2
        and points = ?ps and color = "''#ff8a3d''" and b = True and sz = None]
    by (simp add: l v pointCount_def)
qed

section \<open>Showing sub-horizon points\<close>

text \<open>
  C10. When sub-horizon points are shown nothing is filtered: for \<open>n\<close> samples
  \<open>buildPoints\<close> emits \<open>n\<close> points, those of all samples in order, with the
  identity index map, and the curve builder emits one polyline with all \<open>n\<close>
  points when \<open>n \<ge> 2\<close> and none when \<open>n < 2\<close>.
\<close>

theorem show_below_horizon_keeps_all:
  "indexMap (buildPoints points R color sz True) = [0..<length points] \<and>
   pointCount (verts (buildPoints points R color sz True)) = length points \<and>
   verts (buildPoints points R color sz True) = flat R points \<and>
   (2 \<le> length points \<longrightarrow>
      buildTrajectoryLinesSplitByHorizon points R color True =
        [\<lparr>position = flat R points, lineColor = color\<rparr>] \<and>
      pointCount (flat R points) = length points) \<and>
   (length points < 2 \<longrightarrow> buildTrajectoryLinesSplitByHorizon points R color True = [])"
proof -
  have k: "filter (kept points True) [0..<length points] = [0..<length points]"
    by (simp add: kept_def)
  have v: "verts (buildPoints points R color sz True) = flat R points"
    by (simp add: buildPoints_verts k flat_def map_nth_upt[of "\<lambda>p. vec3 (toXYZ p R)" points])
  have pc: "pointCount (flat R points) = length points"
    by (simp add: pointCount_def length_flat)
  have runs: "runs_from (replicate n True) s k = (if s < k + n then [(s, k + n)] else [])" for n s k
    by (induction n arbitrary: k) simp_all
  have "visible True = (\<lambda>p. True)"
    by (simp add: fun_eq_iff visible_def)
  then have vis: "map (visible True) points = replicate (length points) True"
    by (simp only: map_replicate_const)
  have l: "buildTrajectoryLinesSplitByHorizon points R color True =
     (if 2 \<le> length points then [\<lparr>position = flat R points, lineColor = color\<rparr>] else [])"
    by (simp add: buildLines_closed_form vis runs_from_maximal_runs[symmetric] runs
          mkLine_def segment_def)
  show ?thesis
    by (simp add: buildPoints_indexMap k v pc l)
qed

text \<open>A sample below the horizon followed by one on it; and a single sample.\<close>

theorem show_below_horizon_example:
  "indexMap (buildPoints
      [\<lparr>t = 0, azN = 0, alt = - 1, illum = None\<rparr>, \<lparr>t = 600000, azN = pi, alt = 0, illum = None\<rparr>]
      2 ''#ff8a3d'' None True) = [0, 1] \<and>
   buildTrajectoryLinesSplitByHorizon
      [\<lparr>t = 0, azN = 0, alt = - 1, illum = None\<rparr>, \<lparr>t = 600000, azN = pi, alt = 0, illum = None\<rparr>]
      2 ''#ff8a3d'' True =
     [\<lparr>position = [0, 2 * sin (- 1), 2 * cos (- 1), 0, 0, - 2], lineColor = ''#ff8a3d''\<rparr>] \<and>
   buildTrajectoryLinesSplitByHorizon [\<lparr>t = 0, azN = 0, alt = - 1, illum = None\<rparr>] 2 ''#ff8a3d'' True = []"
  using show_below_horizon_keeps_all[where points =
      "[\<lparr>t = 0, azN = 0, alt = - 1, illum = None\<rparr>, \<lparr>t = 600000, azN = pi, alt = 0, illum = None\<rparr>]"
      and R = 2 and color = "''#ff8a3d''" and sz = None]
    show_below_horizon_keeps_all[where points = "[\<lparr>t = 0, azN = 0, alt = - 1, illum = None\<rparr>]"
      and R = 2 and color = "''#ff8a3d''" and sz = None]
  by (simp add: flat_def vec3_def toXYZ_def upt_rec)

section \<open>Point sizes\<close>

text \<open>
  C6, as stated, fails: a sample without illumination (the sun) gets the factor
  \<open>0.6 + 0.8 * 1 = 1.4\<close>, not \<open>1.0\<close>. Here the sun's point set of base size
  \<open>0.09\<close> with one sample.
\<close>

theorem sun_point_size_counterexample:
  "sizes (buildPoints [\<lparr>t = 0, azN = 0, alt = 0, illum = None\<rparr>] 1 ''#ff8a3d'' (Some 0.09) False)
     = [1.4 * 0.09] \<and>
   sizes (buildPoints [\<lparr>t = 0, azN = 0, alt = 0, illum = None\<rparr>] 1 ''#ff8a3d'' (Some 0.09) False) ! 0
     \<noteq> 1.0 * 0.09"
  by (simp add: buildPoints_sizes kept_def illumOrOne_def sizeOrDefault_def)

text \<open>
  C6, amended. Every emitted point has the size
  \<open>baseSize * (0.6 + 0.8 * illumination)\<close> of its sample, the illumination being
  1 when absent: \<open>0.6 * baseSize\<close> for illumination 0, and \<open>1.4 * baseSize\<close> both
  for illumination 1 and for a sample without illumination (the sun).
\<close>

theorem point_size_scaling:
  "\<forall>i<length (sizes (buildPoints points R color sz b)).
     sizes (buildPoints points R color sz b) ! i =
       sizeOrDefault sz *
         (0.6 + 0.8 * (case illum (points ! (indexMap (buildPoints points R color sz b) ! i)) of
                         None \<Rightarrow> 1 | Some v \<Rightarrow> v)) \<and>
     (illum (points ! (indexMap (buildPoints points R color sz b) ! i)) = Some 0 \<longrightarrow>
        sizes (buildPoints points R color sz b) ! i = 0.6 * sizeOrDefault sz) \<and>
     (illum (points ! (indexMap (buildPoints points R color sz b) ! i)) = Some 1 \<longrightarrow>
        sizes (buildPoints points R color sz b) ! i = 1.4 * sizeOrDefault sz) \<and>
     (illum (points ! (indexMap (buildPoints points R color sz b) ! i)) = None \<longrightarrow>
        sizes (buildPoints points R color sz b) ! i = 1.4 * sizeOrDefault sz)"
  by (simp add: buildPoints_sizes buildPoints_indexMap illumOrOne_def)

text \<open>Three samples: illumination 0, illumination 1, and none.\<close>

theorem point_size_scaling_example:
  "sizes (buildPoints
     [\<lparr>t = 0, azN = 0, alt = 0, illum = Some 0\<rparr>, \<lparr>t = 0, azN = 0, alt = 0, illum = Some 1\<rparr>,
      \<lparr>t = 0, azN = 0, alt = 0, illum = None\<rparr>] 1 ''#9fb7ff'' (Some 0.11) False) ! 0 = 0.6 * 0.11 \<and>
   sizes (buildPoints
     [\<lparr>t = 0, azN = 0, alt = 0, illum = Some 0\<rparr>, \<lparr>t = 0, azN = 0, alt = 0, illum = Some 1\<rparr>,
      \<lparr>t = 0, azN = 0, alt = 0, illum = None\<rparr>] 1 ''#9fb7ff'' (Some 0.11) False) ! 1 = 1.4 * 0.11 \<and>
   sizes (buildPoints
     [\<lparr>t = 0, azN = 0, alt = 0, illum = Some 0\<rparr>, \<lparr>t = 0, azN = 0, alt = 0, illum = Some 1\<rparr>,
      \<lparr>t = 0, azN = 0, alt = 0, illum = None\<rparr>] 1 ''#9fb7ff'' (Some 0.11) False) ! 2 = 1.4 * 0.11"
proof -
  let ?ps = "[\<lparr>t = 0, azN = 0, alt = 0, illum = Some 0\<rparr>, \<lparr>t = 0, azN = 0, alt = 0, illum = Some 1\<rparr>,
      \<lparr>t = 0, azN = 0, alt = 0, illum = None\<rparr>]"
  have m: "indexMap (buildPoints ?ps 1 ''#9fb7ff'' (Some 0.11) False) = [0, 1, 2]"
    by (simp add: buildPoints_indexMap kept_def upt_rec)
  have n: "length (sizes (buildPoints ?ps 1 ''#9fb7ff'' (Some 0.11) False)) = 3"
    by (simp add: buildPoints_sizes kept_def upt_rec)
  have s: "sizeOrDefault (Some 0.11) = 0.11" by (simp add: sizeOrDefault_def)
  from point_size_scaling[where points = ?ps and R = 1 and color = "''#9fb7ff''"
        and sz = "Some 0.11" and b = False]
  have "\<forall>i<3. (illum (?ps ! ([0, 1, 2] ! i)) = Some 0 \<longrightarrow>
        sizes (buildPoints ?ps 1 ''#9fb7ff'' (Some 0.11) False) ! i = 0.6 * 0.11) \<and>
     (illum (?ps ! ([0, 1, 2] ! i)) = Some 1 \<longrightarrow>
        sizes (buildPoints ?ps 1 ''#9fb7ff'' (Some 0.11) False) ! i = 1.4 * 0.11) \<and>
     (illum (?ps ! ([0, 1, 2] ! i)) = None \<longrightarrow>
        sizes (buildPoints ?ps 1 ''#9fb7ff'' (Some 0.11) False) ! i = 1.4 * 0.11)"
    unfolding m n s by blast
  then show ?thesis
    by (simp add: eval_nat_numeral All_less_Suc)
qed

section \<open>Azimuth conversion\<close>

text \<open>
  C4. The conversion maps a south-referenced azimuth \<open>a\<close> to \<open>(a + \<pi>) mod 2\<pi>\<close>, a
  value in \<open>[0, 2\<pi>)\<close>; and for \<open>\<theta>\<close> in \<open>[0, 2\<pi>)\<close>, converting \<open>\<theta>\<close> and going back
  (subtracting \<open>\<pi>\<close> modulo \<open>2\<pi>\<close>, or converting once more, the shift by half a
  turn being its own inverse) gives \<open>\<theta>\<close> again.
\<close>

theorem azimuth_conversion:
  "toAzFromNorth a = mod2pi (a + pi) \<and>
   0 \<le> toAzFromNorth a \<and> toAzFromNorth a < 2 * pi \<and>
   (0 \<le> \<theta> \<and> \<theta> < 2 * pi \<longrightarrow>
      mod2pi (toAzFromNorth \<theta> - pi) = \<theta> \<and>
      toAzFromNorth (toAzFromNorth \<theta>) = \<theta> \<and>
      toAzFromNorth \<theta> = (if \<theta> < pi then \<theta> + pi else \<theta> - pi))"
proof (intro conjI impI)
  show "toAzFromNorth a = mod2pi (a + pi)" by (rule toAzFromNorth_mod2pi)
  show "0 \<le> toAzFromNorth a" "toAzFromNorth a < 2 * pi"
    using mod2pi_range[of "a + pi"] by (simp_all add: toAzFromNorth_mod2pi)
next
  assume t: "0 \<le> \<theta> \<and> \<theta> < 2 * pi"
  have "mod2pi (toAzFromNorth \<theta> - pi) = mod2pi (\<theta> + pi - pi)"
    unfolding toAzFromNorth_mod2pi
    using mod2pi_mod2pi_add[of "\<theta> + pi" "- pi"] by simp
  with t show "mod2pi (toAzFromNorth \<theta> - pi) = \<theta>" by (simp add: mod2pi_id)
  have "toAzFromNorth (toAzFromNorth \<theta>) = mod2pi (\<theta> + pi + pi)"
    unfolding toAzFromNorth_mod2pi by (rule mod2pi_mod2pi_add)
  also have "\<dots> = mod2pi (\<theta> + 2 * pi * of_int 1)" by (simp add: algebra_simps)
  also have "\<dots> = mod2pi \<theta>" by (rule mod2pi_shift)
  finally show "toAzFromNorth (toAzFromNorth \<theta>) = \<theta>" using t by (simp add: mod2pi_id)
  show "toAzFromNorth \<theta> = (if \<theta> < pi then \<theta> + pi else \<theta> - pi)"
  proof (cases "\<theta> < pi")
    case True
    with t have "mod2pi (\<theta> + pi) = \<theta> + pi" by (intro mod2pi_id) simp_all
    with True show ?thesis by (simp add: toAzFromNorth_mod2pi)
  next
    case False
    have "mod2pi (\<theta> + pi) = mod2pi ((\<theta> - pi) + 2 * pi * of_int 1)" by (simp add: algebra_simps)
    also have "\<dots> = mod2pi (\<theta> - pi)" by (rule mod2pi_shift)
    also have "\<dots> = \<theta> - pi" using t False by (intro mod2pi_id) simp_all
    finally show ?thesis using False by (simp add: toAzFromNorth_mod2pi)
  qed
qed

text \<open>West in the south-referenced convention, \<open>\<pi>/2\<close>, is \<open>3\<pi>/2\<close> from north.\<close>

theorem azimuth_conversion_example:
  "toAzFromNorth (pi / 2) = 3 * pi / 2 \<and> toAzFromNorth (toAzFromNorth (pi / 2)) = pi / 2 \<and>
   mod2pi (toAzFromNorth (pi / 2) - pi) = pi / 2"
proof -
  have h: "0 \<le> pi / 2 \<and> pi / 2 < 2 * pi" using pi_gt_zero by simp
  have "pi / 2 < pi" using pi_gt_zero by simp
  then have i: "(if pi / 2 < pi then pi / 2 + pi else pi / 2 - pi) = 3 * pi / 2" by simp
  note r = azimuth_conversion[where a = 0 and \<theta> = "pi / 2", THEN conjunct2, THEN conjunct2,
      THEN conjunct2, rule_format, OF h]
  from r[unfolded i] show ?thesis by blast
qed

section \<open>Sampling coverage\<close>

text \<open>
  C3. For coordinates with a timezone and a date whose local day is 24 hours long
  (local midnight plus one calendar day is 24 hours later), the sampler with a
  step of 10 minutes returns, and returns exactly 144 samples: sample \<open>k\<close> is at
  local midnight plus \<open>k\<close> steps, so the instants increase strictly, the first is
  local midnight, and all lie before the end of the day.
\<close>

theorem sun_sampler_coverage:
  assumes "tzLookup env lat lon = Some tz"
    and "startOfDay env tz dateISO = Some start"
    and "plusOneDay env tz start = start + 24 * 60 * 60000"
  shows "\<exists>pts. buildSunTrajectory env lat lon dateISO 10 = Some (Inr pts) \<and>
           length pts = 144 \<and>
           (\<forall>k<144. t (pts ! k) = start + int k * (10 * 60000)) \<and>
           sorted_wrt (<) (map t pts) \<and>
           t (hd pts) = start \<and>
           (\<forall>p\<in>set pts. start \<le> t p \<and> t p < start + 24 * 60 * 60000)"
proof -
  define pts where "pts = map (sunPoint env lat lon) (sampleInstants start 10 144)"
  have n: "nat ((start + 24 * 60 * 60000 - start + 10 * 60000 - 1) div (10 * 60000)) = 144"
    by simp
  have "sun_loop env lat lon 10 (start + 24 * 60 * 60000) start [] = Some pts"
    using sun_loop_closed[of 10 env lat lon "start + 24 * 60 * 60000" start "[]"]
    by (simp only: n pts_def append_Nil)
  then have r: "buildSunTrajectory env lat lon dateISO 10 = Some (Inr pts)"
    using assms by (simp add: buildSunTrajectory_def)
  have ts: "map t pts = sampleInstants start 10 144"
    by (simp only: pts_def t_sunPoint)
  have len: "length pts = 144"
    by (simp add: pts_def sampleInstants_length)
  have nth: "t (pts ! k) = start + int k * (10 * 60000)" if "k < 144" for k
  proof -
    have "t (pts ! k) = map t pts ! k" using that len by simp
    also have "\<dots> = start + int k * (10 * 60000)"
      using that by (simp only: ts sampleInstants_nth)
    finally show ?thesis .
  qed
  have sorted: "sorted_wrt (<) (map t pts)"
    by (simp only: ts) (rule sampleInstants_sorted, simp)
  have "pts \<noteq> []" using len by auto
  then have "hd pts = pts ! 0" by (simp add: hd_conv_nth)
  with nth[of 0] have hd: "t (hd pts) = start" by simp
  have range: "start \<le> t p \<and> t p < start + 24 * 60 * 60000" if "p \<in> set pts" for p
  proof -
    from that obtain k where k: "k < 144" "p = pts ! k"
      using len by (auto simp add: in_set_conv_nth)
    then have "t p = start + int k * (10 * 60000)" using nth by simp
    with k show ?thesis by simp
  qed
  from r len nth sorted hd range show ?thesis by blast
qed

text \<open>Tokyo on 2024-06-21: local midnight is 2024-06-20T15:00:00Z.\<close>

theorem sun_sampler_coverage_example:
  "\<exists>pts. buildSunTrajectory
      \<lparr>tzLookup = (\<lambda>lat lon. Some ''Asia/Tokyo''),
       startOfDay = (\<lambda>tz d. Some 1718895600000),
       plusOneDay = (\<lambda>tz dt. dt + 86400000),
       getPosition = (\<lambda>dt lat lon. \<lparr>azimuth = 0, altitude = 0\<rparr>)\<rparr>
      35.68 139.69 ''2024-06-21'' 10 = Some (Inr pts) \<and>
     length pts = 144 \<and> t (hd pts) = 1718895600000 \<and> t (pts ! 143) = 1718981400000"
proof -
  let ?env = "\<lparr>tzLookup = (\<lambda>lat lon. Some ''Asia/Tokyo''),
       startOfDay = (\<lambda>tz d. Some 1718895600000),
       plusOneDay = (\<lambda>tz dt. dt + 86400000),
       getPosition = (\<lambda>dt lat lon. \<lparr>azimuth = 0, altitude = 0\<rparr>)\<rparr>"
  have a: "tzLookup ?env 35.68 139.69 = Some ''Asia/Tokyo''" by simp
  have b: "startOfDay ?env ''Asia/Tokyo'' ''2024-06-21'' = Some 1718895600000" by simp
  have c: "plusOneDay ?env ''Asia/Tokyo'' 1718895600000 = 1718895600000 + 24 * 60 * 60000" by simp
  from sun_sampler_coverage[OF a b c] obtain pts where
    p: "buildSunTrajectory ?env 35.68 139.69 ''2024-06-21'' 10 = Some (Inr pts)"
       "length pts = 144" "\<forall>k<144. t (pts ! k) = 1718895600000 + int k * (10 * 60000)"
       "t (hd pts) = 1718895600000"
    by blast
  from p(3) have "t (pts ! 143) = 1718895600000 + int 143 * (10 * 60000)" by simp
  then have "t (pts ! 143) = 1718981400000" by simp
  with p show ?thesis by blast
qed

section \<open>Moon-phase raster\<close>

text \<open>
  C7. The pixel data of the moon-phase raster (\<open>64 \<times> 64\<close> pixels of four bytes)
  is a function of the phase fraction and the dark-mode flag alone: every pixel
  is shaded with the light direction \<open>(sin a, 0, - cos a)\<close>, \<open>a = 2\<pi> * phase\<close>, and
  the raster is that of any illumination record with the same phase, so two
  renders that agree on the phase and on dark mode give the same pixel data
  whatever the illuminated fraction (and the angle) are; the same holds of the
  badge that \<open>updateMoonAge\<close> draws.
\<close>

theorem moon_phase_raster_depends_on_phase_only:
  "moonPhaseImage ill dark =
     concat (map (\<lambda>y'. concat (map (\<lambda>x'.
        moonPixel (sin (2 * pi * phase ill)) (- cos (2 * pi * phase ill))
          \<lparr>red = 225, green = 222, blue = 210\<rparr>
          (if dark then \<lparr>red = 20, green = 26, blue = 42\<rparr>
           else \<lparr>red = 220, green = 226, blue = 242\<rparr>)
          32 32 28.8 x' y') [0..<64])) [0..<64]) \<and>
   length (moonPhaseImage ill dark) = 64 * 64 * 4 \<and>
   moonPhaseImage ill dark =
     moonPhaseImage \<lparr>fraction = 0, phase = phase ill, angle = 0\<rparr> dark \<and>
   (phase ill = phase ill' \<longrightarrow> moonPhaseImage ill dark = moonPhaseImage ill' dark) \<and>
   (dateISO \<noteq> [] \<and> dateISO' \<noteq> [] \<and>
    phase (getIll (dateISO @ ''T12:00:00Z'')) = phase (getIll' (dateISO' @ ''T12:00:00Z'')) \<longrightarrow>
      map_option imageData (updateMoonAge getIll dateISO dark hasCtx) =
      map_option imageData (updateMoonAge getIll' dateISO' dark hasCtx))"
proof (intro conjI impI)
  show "moonPhaseImage ill dark =
     concat (map (\<lambda>y'. concat (map (\<lambda>x'.
        moonPixel (sin (2 * pi * phase ill)) (- cos (2 * pi * phase ill))
          \<lparr>red = 225, green = 222, blue = 210\<rparr>
          (if dark then \<lparr>red = 20, green = 26, blue = 42\<rparr>
           else \<lparr>red = 220, green = 226, blue = 242\<rparr>)
          32 32 28.8 x' y') [0..<64])) [0..<64])"
    by (simp add: moonPhaseImage_def Let_def)
  show "length (moonPhaseImage ill dark) = 64 * 64 * 4" by (rule length_moonPhaseImage)
  show "moonPhaseImage ill dark = moonPhaseImage \<lparr>fraction = 0, phase = phase ill, angle = 0\<rparr> dark"
    by (simp add: moonPhaseImage_def Let_def)
  show "moonPhaseImage ill dark = moonPhaseImage ill' dark" if "phase ill = phase ill'"
    using that by (simp add: moonPhaseImage_def Let_def)
  show "map_option imageData (updateMoonAge getIll dateISO dark hasCtx) =
      map_option imageData (updateMoonAge getIll' dateISO' dark hasCtx)"
    if "dateISO \<noteq> [] \<and> dateISO' \<noteq> [] \<and>
    phase (getIll (dateISO @ ''T12:00:00Z'')) = phase (getIll' (dateISO' @ ''T12:00:00Z''))"
    using that by (simp add: moonPhaseImage_def updateMoonAge_def Let_def)
qed

text \<open>Two illumination records at first quarter that differ in fraction and angle.\<close>

theorem moon_phase_raster_example:
  "moonPhaseImage \<lparr>fraction = 0.5, phase = 0.25, angle = - 1.2\<rparr> True =
   moonPhaseImage \<lparr>fraction = 0.52, phase = 0.25, angle = 1.9\<rparr> True"
  using moon_phase_raster_depends_on_phase_only[where
      ill = "\<lparr>fraction = 0.5, phase = 0.25, angle = - 1.2\<rparr>" and
      ill' = "\<lparr>fraction = 0.52, phase = 0.25, angle = 1.9\<rparr>" and dark = True,
      THEN conjunct2, THEN conjunct2, THEN conjunct2, THEN conjunct1]
  by simp

section \<open>Geocoding search\<close>



end
